theory Spec2Isabelle
  imports Complex_Main "HOL-Library.Word"
begin

unbundle bit_operations_syntax

section \<open>Data model\<close>

text \<open>
  The program is \<^verbatim>\<open>src/midi-generation/genMidiFromGpt.py\<close>. A \<^verbatim>\<open>bytes\<close> object is a
  list of 8-bit words. Python integers are unbounded and are modelled as \<open>int\<close>; the
  bit operations \<open>AND\<close>, \<open>OR\<close>, \<open>push_bit\<close> and \<open>drop_bit\<close> of HOL on \<open>int\<close> are the
  two's-complement operations \<^verbatim>\<open>&\<close>, \<^verbatim>\<open>|\<close>, \<^verbatim>\<open><<\<close> and \<^verbatim>\<open>>>\<close> of Python.
\<close>

type_synonym byte = "8 word"

text \<open>
  The exceptions the program can raise: \<^verbatim>\<open>ZeroDivisionError\<close> from \<^verbatim>\<open>60000000 / tempo\<close>,
  \<^verbatim>\<open>struct.error\<close> from \<^verbatim>\<open>pack\<close>, \<^verbatim>\<open>ValueError\<close> from \<^verbatim>\<open>bytes([...])\<close> and from \<^verbatim>\<open>int\<close> of
  a NaN, \<^verbatim>\<open>OverflowError\<close> from \<^verbatim>\<open>int\<close> of an infinity.
\<close>

datatype error = ZeroDivisionError | StructError | ValueError | OverflowError

text \<open>
  The outcome of a call: \<open>None\<close> when the call never returns, \<open>Some (Inl e)\<close> when it
  raises \<open>e\<close>, \<open>Some (Inr x)\<close> when it returns \<open>x\<close>.
\<close>

type_synonym 'a outcome = "(error + 'a) option"

text \<open>
  A note is the tuple \<^verbatim>\<open>(start, pitch, dur, vel)\<close> that the loop of \<^verbatim>\<open>create_midi\<close>
  unpacks. Pitch and velocity are integers. Start and duration are numbers in beats, of
  whatever numeric type the caller uses (\<^verbatim>\<open>float\<close> in the note list of the repository):
  the program applies that type's own \<^verbatim>\<open>-\<close>, \<^verbatim>\<open>+\<close>, \<^verbatim>\<open>* 480\<close> and \<^verbatim>\<open>int(...)\<close> to them. The
  model does not fix the type. It takes the four operations, and the value that the
  initial \<^verbatim>\<open>last_time = 0\<close> has in the type, as a record \<open>A\<close>; for floats the operations
  round, and \<^verbatim>\<open>int\<close> raises on an infinity or a NaN. Every statement made for all \<open>A\<close>
  holds for the float arithmetic of Python in particular.
\<close>

type_synonym 'a note_event = "'a \<times> int \<times> 'a \<times> int"

record 'a arith =
  num_zero :: 'a
  num_sub :: "'a \<Rightarrow> 'a \<Rightarrow> 'a"
  num_add :: "'a \<Rightarrow> 'a \<Rightarrow> 'a"
  num_mul480 :: "'a \<Rightarrow> 'a"
  num_int :: "'a \<Rightarrow> error + int"

section \<open>Library functions the program calls\<close>

text \<open>\<^verbatim>\<open>int(x)\<close> on a finite number of value \<open>x\<close>: truncation towards zero.\<close>

definition py_int :: "rat \<Rightarrow> int" where
  "py_int x = (if x < 0 then - \<lfloor>- x\<rfloor> else \<lfloor>x\<rfloor>)"

text \<open>
  The arithmetic that does not round: Python's on \<^verbatim>\<open>int\<close> and \<^verbatim>\<open>Fraction\<close> values, and
  Python's on floats in every run in which the exact result of each subtraction,
  addition and multiplication is a float again, as it is when all times are small
  multiples of a power of 1/2. The inputs evaluated below are of that kind.
\<close>

definition exact_arith :: "rat arith" where
  "exact_arith =
     \<lparr>num_zero = 0,
      num_sub = (\<lambda>a b. a - b),
      num_add = (\<lambda>a b. a + b),
      num_mul480 = (\<lambda>a. a * 480),
      num_int = (\<lambda>a. Inr (py_int a))\<rparr>"

text \<open>
  \<^verbatim>\<open>bytes(xs)\<close> on a list of integers: \<^verbatim>\<open>ValueError\<close> unless every element is in
  \<^verbatim>\<open>range(0, 256)\<close>.
\<close>

definition bytes :: "int list \<Rightarrow> error + byte list" where
  "bytes xs = (if \<forall>x \<in> set xs. 0 \<le> x \<and> x < 256 then Inr (map word_of_int xs) else Inl ValueError)"

text \<open>
  \<^verbatim>\<open>pack('>L', n)\<close>: four bytes, most significant first; \<^verbatim>\<open>struct.error\<close> unless
  \<open>0 \<le> n < 2^32\<close>. \<^verbatim>\<open>pack('>H', n)\<close>: two bytes, \<^verbatim>\<open>struct.error\<close> unless \<open>0 \<le> n < 2^16\<close>.
\<close>

definition pack_L :: "int \<Rightarrow> error + byte list" where
  "pack_L n = (if 0 \<le> n \<and> n < 2 ^ 32
     then Inr [word_of_int (drop_bit 24 n), word_of_int (drop_bit 16 n),
               word_of_int (drop_bit 8 n), word_of_int n]
     else Inl StructError)"

definition pack_H :: "int \<Rightarrow> error + byte list" where
  "pack_H n = (if 0 \<le> n \<and> n < 2 ^ 16
     then Inr [word_of_int (drop_bit 8 n), word_of_int n]
     else Inl StructError)"

text \<open>\<^verbatim>\<open>pack('>LHHH', a, b, c, d)\<close>: the four fields one after the other.\<close>

definition pack_LHHH :: "int \<Rightarrow> int \<Rightarrow> int \<Rightarrow> int \<Rightarrow> error + byte list" where
  "pack_LHHH a b c d =
     (case pack_L a of Inl e \<Rightarrow> Inl e | Inr pa \<Rightarrow>
     (case pack_H b of Inl e \<Rightarrow> Inl e | Inr pb \<Rightarrow>
     (case pack_H c of Inl e \<Rightarrow> Inl e | Inr pc \<Rightarrow>
     (case pack_H d of Inl e \<Rightarrow> Inl e | Inr pd \<Rightarrow> Inr (pa @ pb @ pc @ pd)))))"

section \<open>write_varlen\<close>

text \<open>
  The first loop of \<^verbatim>\<open>write_varlen\<close>:
  \<^verbatim>\<open>while value >> 7: value >>= 7; buffer <<= 8; buffer |= ((value & 0x7F) | 0x80)\<close>.
  It returns the final \<open>buffer\<close>. Nothing bounds the number of iterations, so the loop is
  a partial function: \<open>None\<close> is a run that never leaves the loop.
\<close>

partial_function (option) write_varlen_shift :: "int \<Rightarrow> int \<Rightarrow> int option" where
  "write_varlen_shift value buffer =
     (if drop_bit 7 value \<noteq> 0
      then write_varlen_shift (drop_bit 7 value)
             (push_bit 8 buffer OR ((drop_bit 7 value AND 0x7F) OR 0x80))
      else Some buffer)"

text \<open>
  The second loop:
  \<^verbatim>\<open>while True: out.append(buffer & 0xFF); if buffer & 0x80: buffer >>= 8 else: break\<close>.
  It returns the final \<open>out\<close>.
\<close>

partial_function (option) write_varlen_emit :: "int \<Rightarrow> int list \<Rightarrow> int list option" where
  "write_varlen_emit buffer out =
     (if buffer AND 0x80 \<noteq> 0
      then write_varlen_emit (drop_bit 8 buffer) (out @ [buffer AND 0xFF])
      else Some (out @ [buffer AND 0xFF]))"

text \<open>
  \<^verbatim>\<open>write_varlen(value)\<close>: both loops, then \<^verbatim>\<open>bytes(out[::-1])\<close>. Every element of
  \<open>out\<close> is some \<open>buffer AND 0xFF\<close>, so \<^verbatim>\<open>bytes\<close> cannot raise here and the result is
  either the byte string or no return at all.
\<close>

definition write_varlen :: "int \<Rightarrow> byte list option" where
  "write_varlen value =
     (case write_varlen_shift value (value AND 0x7F) of
        None \<Rightarrow> None
      | Some buffer \<Rightarrow>
          (case write_varlen_emit buffer [] of
             None \<Rightarrow> None
           | Some out \<Rightarrow> Some (map word_of_int (rev out))))"

section \<open>create_midi\<close>

text \<open>
  The body of the \<^verbatim>\<open>for\<close> loop of \<^verbatim>\<open>create_midi\<close>, with the loop's state
  (\<open>last_time\<close>, \<open>track_data\<close>) passed along. The two \<^verbatim>\<open>int(...)\<close> come first, as in the
  source; then, in each statement, the operands are evaluated from left to right:
  \<^verbatim>\<open>write_varlen\<close> before \<^verbatim>\<open>bytes\<close>.
\<close>

fun create_midi_loop :: "'a arith \<Rightarrow> 'a \<Rightarrow> byte list \<Rightarrow> 'a note_event list \<Rightarrow> byte list outcome" where
  "create_midi_loop A last_time track_data [] = Some (Inr track_data)"
| "create_midi_loop A last_time track_data ((start, pitch, dur, vel) # notes) =
     (case num_int A (num_mul480 A (num_sub A start last_time)) of
        Inl e \<Rightarrow> Some (Inl e)
      | Inr delta_start \<Rightarrow>
     (case num_int A (num_mul480 A dur) of
        Inl e \<Rightarrow> Some (Inl e)
      | Inr delta_dur \<Rightarrow>
     (case write_varlen delta_start of
        None \<Rightarrow> None
      | Some on_delta \<Rightarrow>
     (case bytes [pitch, vel] of
        Inl e \<Rightarrow> Some (Inl e)
      | Inr on_data \<Rightarrow>
     (case write_varlen delta_dur of
        None \<Rightarrow> None
      | Some off_delta \<Rightarrow>
     (case bytes [pitch, 0] of
        Inl e \<Rightarrow> Some (Inl e)
      | Inr off_data \<Rightarrow>
          create_midi_loop A (num_add A start dur)
            (track_data @ on_delta @ [0x90] @ on_data @ off_delta @ [0x80] @ off_data)
            notes))))))"

text \<open>The four-character chunk tags \<^verbatim>\<open>b'MThd'\<close> and \<^verbatim>\<open>b'MTrk'\<close>.\<close>

definition MThd :: "byte list" where
  "MThd = [0x4D, 0x54, 0x68, 0x64]"

definition MTrk :: "byte list" where
  "MTrk = [0x4D, 0x54, 0x72, 0x6B]"

text \<open>
  \<^verbatim>\<open>create_midi(filename, notes, tempo)\<close>. The model returns the byte string
  \<^verbatim>\<open>header + track\<close> that the program hands to \<^verbatim>\<open>f.write\<close>; opening the file and
  printing the message are not modelled, so \<open>filename\<close> is not a parameter. The tempo
  is an integer. The division is Python's true division: it raises on a zero divisor,
  and for integer operands \<^verbatim>\<open>int(60000000 / tempo)\<close> is the exact quotient truncated
  towards zero (the quotient is correctly rounded, and no quotient of 60000000 by an
  integer is within a rounding error of another integer).
\<close>

definition create_midi :: "'a arith \<Rightarrow> 'a note_event list \<Rightarrow> int \<Rightarrow> byte list outcome" where
  "create_midi A notes tempo =
     (if tempo = 0 then Some (Inl ZeroDivisionError)
      else
        let microseconds_per_beat = py_int (60000000 / of_int tempo)
        in (case pack_L microseconds_per_beat of
             Inl e \<Rightarrow> Some (Inl e)
           | Inr packed \<Rightarrow>
          (case create_midi_loop A (num_zero A) ([0x00, 0xFF, 0x51, 0x03] @ drop 1 packed) notes of
             None \<Rightarrow> None
           | Some (Inl e) \<Rightarrow> Some (Inl e)
           | Some (Inr track_events) \<Rightarrow>
               let track_data = track_events @ [0x00, 0xFF, 0x2F, 0x00]
               in (case pack_LHHH 6 1 1 480 of
                    Inl e \<Rightarrow> Some (Inl e)
                  | Inr header_data \<Rightarrow>
                 (case pack_L (int (length track_data)) of
                    Inl e \<Rightarrow> Some (Inl e)
                  | Inr len \<Rightarrow> Some (Inr ((MThd @ header_data) @ (MTrk @ len @ track_data))))))))"

section \<open>Notions of the specification\<close>

text \<open>
  The variable-length quantity of the MIDI file format, as the specification words it:
  the 7-bit groups of the value, most significant group first, the high bit set on
  every group except the last; 0 is the single byte 0. \<open>vlq_cont w\<close> is the groups of
  \<open>w\<close> with the continuation flag on each of them.
\<close>

function vlq_cont :: "int \<Rightarrow> int list" where
  "vlq_cont w = (if w \<le> 0 then [] else vlq_cont (w div 128) @ [w mod 128 + 128])"
  by pat_completeness auto
termination
  by (relation "measure nat") (auto simp: zdiv_mono2)

definition vlq :: "int \<Rightarrow> byte list" where
  "vlq v = map word_of_int (vlq_cont (v div 128) @ [v mod 128])"

text \<open>
  The standard decoding of a variable-length quantity at the head of a byte string:
  the value and the bytes that follow it, \<open>None\<close> when the string ends inside the
  quantity.
\<close>

fun vlq_decode_from :: "int \<Rightarrow> byte list \<Rightarrow> (int \<times> byte list) option" where
  "vlq_decode_from acc [] = None"
| "vlq_decode_from acc (b # bs) =
     (if b AND 0x80 \<noteq> 0 then vlq_decode_from (acc * 128 + uint (b AND 0x7F)) bs
      else Some (acc * 128 + uint b, bs))"

definition vlq_decode :: "byte list \<Rightarrow> (int \<times> byte list) option" where
  "vlq_decode bs = vlq_decode_from 0 bs"

text \<open>The unsigned value of a big-endian field, and of a little-endian digit list.\<close>

definition be_uint :: "byte list \<Rightarrow> int" where
  "be_uint bs = foldl (\<lambda>a b. a * 256 + uint b) 0 bs"

fun le_int :: "int list \<Rightarrow> int" where
  "le_int [] = 0"
| "le_int (x # xs) = x + 256 * le_int xs"

text \<open>
  The delta times of an event list as the program computes them, after \<^verbatim>\<open>int(...)\<close> and
  in the order of the loop: for each event \<^verbatim>\<open>int((start - last_time) * 480)\<close> and
  \<^verbatim>\<open>int(dur * 480)\<close>, with the running cursor \<^verbatim>\<open>last_time = start + dur\<close>. \<open>start_ticks\<close> is
  the start deltas alone, \<open>cursor\<close> the value of \<open>last_time\<close> after a list of events.
\<close>

fun tick_deltas :: "'a arith \<Rightarrow> 'a \<Rightarrow> 'a note_event list \<Rightarrow> (error + int) list" where
  "tick_deltas A last_time [] = []"
| "tick_deltas A last_time ((start, pitch, dur, vel) # notes) =
     num_int A (num_mul480 A (num_sub A start last_time))
       # num_int A (num_mul480 A dur)
       # tick_deltas A (num_add A start dur) notes"

fun start_ticks :: "'a arith \<Rightarrow> 'a \<Rightarrow> 'a note_event list \<Rightarrow> (error + int) list" where
  "start_ticks A last_time [] = []"
| "start_ticks A last_time ((start, pitch, dur, vel) # notes) =
     num_int A (num_mul480 A (num_sub A start last_time))
       # start_ticks A (num_add A start dur) notes"

fun cursor :: "'a arith \<Rightarrow> 'a \<Rightarrow> 'a note_event list \<Rightarrow> 'a" where
  "cursor A last_time [] = last_time"
| "cursor A last_time ((start, pitch, dur, vel) # notes) = cursor A (num_add A start dur) notes"

text \<open>The range of values that \<^verbatim>\<open>bytes([pitch, vel])\<close> accepts.\<close>

definition fits_byte :: "int \<Rightarrow> bool" where
  "fits_byte x = (0 \<le> x \<and> x < 256)"

text \<open>
  A delta-time field for \<open>n\<close> ticks: as many bytes as the variable-length quantity of
  \<open>n\<close> has, and that quantity itself when \<open>n\<close> is below 128, where it is one byte. For a
  longer field the order of its bytes is left open.
\<close>

definition delta_field :: "int \<Rightarrow> byte list \<Rightarrow> bool" where
  "delta_field n bs = (length bs = length (vlq n) \<and> (n < 128 \<longrightarrow> bs = vlq n))"

text \<open>
  The bytes of one event in the track: a delta-time field, the status byte \<open>90\<close> with
  pitch and velocity (Note-On), a delta-time field, the status byte \<open>80\<close> with the same
  pitch and velocity 0 (Note-Off). \<open>note_on_record\<close> relates the bytes to the start
  delta the program computed, \<open>note_record\<close> to the event and to its duration
  \<^verbatim>\<open>int(dur * 480)\<close>.
\<close>

definition note_on_record :: "error + int \<Rightarrow> byte list \<Rightarrow> bool" where
  "note_on_record d r =
     (case d of
        Inl e \<Rightarrow> False
      | Inr delta_start \<Rightarrow>
          \<exists>on_delta rest. r = on_delta @ [0x90] @ rest \<and> delta_field delta_start on_delta)"

definition note_record :: "'a arith \<Rightarrow> 'a note_event \<Rightarrow> byte list \<Rightarrow> bool" where
  "note_record A n r =
     (case n of (start, pitch, dur, vel) \<Rightarrow>
        (case num_int A (num_mul480 A dur) of
           Inl e \<Rightarrow> False
         | Inr delta_dur \<Rightarrow>
             \<exists>on_delta off_delta.
               r = on_delta @ [0x90, word_of_int pitch, word_of_int vel]
                   @ off_delta @ [0x80, word_of_int pitch, 0x00]
               \<and> on_delta \<noteq> []
               \<and> delta_field delta_dur off_delta))"

declare vlq_cont.simps [simp del]

section \<open>The bit operations as arithmetic\<close>

text \<open>
  The masks and shifts of \<^verbatim>\<open>write_varlen\<close>, read as division and remainder.
\<close>

lemma and_7F: "(v::int) AND 0x7F = v mod 128"
  using take_bit_eq_mask[of 7 v] by (simp add: take_bit_eq_mod mask_eq_exp_minus_1)

lemma and_FF: "(v::int) AND 0xFF = v mod 256"
  using take_bit_eq_mask[of 8 v] by (simp add: take_bit_eq_mod mask_eq_exp_minus_1)

lemma and_80: "(v::int) AND 0x80 \<noteq> 0 \<longleftrightarrow> odd (v div 128)"
  using and_exp_eq_0_iff_not_bit[of v 7] by (simp add: bit_iff_odd)

lemma or_80: "(v::int) mod 128 OR 0x80 = v mod 128 + 128"
  using concat_bit_eq[of 7 v 1] by (simp add: concat_bit_def take_bit_eq_mod)

lemma shl_or:
  assumes "0 \<le> g" "g < 256"
  shows "push_bit 8 (b::int) OR g = b * 256 + g"
proof -
  have "take_bit 8 g = g" using assms by (simp add: take_bit_eq_mod)
  then show ?thesis
    using concat_bit_eq[of 8 g b] by (simp add: concat_bit_def push_bit_eq_mult or.commute)
qed

section \<open>The two loops of write_varlen\<close>

text \<open>
  One iteration of each loop, in arithmetic. A run of the first loop that returns
  started from a value that is not negative.
\<close>

lemma shift_step:
  "write_varlen_shift v b =
     (if v div 128 \<noteq> 0 then write_varlen_shift (v div 128) (b * 256 + ((v div 128) mod 128 + 128))
      else Some b)"
proof -
  have g: "0 \<le> (v div 128) mod 128 + 128" "(v div 128) mod 128 + 128 < 256"
    by simp_all
  show ?thesis
    by (subst write_varlen_shift.simps) (simp add: drop_bit_eq_div and_7F or_80 shl_or[OF g])
qed

lemma emit_step:
  "write_varlen_emit b out =
     (if odd (b div 128) then write_varlen_emit (b div 256) (out @ [b mod 256])
      else Some (out @ [b mod 256]))"
  by (subst write_varlen_emit.simps) (simp add: drop_bit_eq_div and_FF and_80)

lemma shift_Some_nonneg:
  assumes "write_varlen_shift v b = Some r"
  shows "0 \<le> v"
proof (rule write_varlen_shift.raw_induct[where P="\<lambda>v b r. 0 \<le> v", OF _ assms])
  fix f :: "int \<Rightarrow> int \<Rightarrow> int option" and x c s
  assume IH: "\<And>v b y. f v b = Some y \<Longrightarrow> 0 \<le> v"
    and eq: "(if drop_bit 7 x \<noteq> 0 then f (drop_bit 7 x) (push_bit 8 c OR ((drop_bit 7 x AND 0x7F) OR 0x80)) else Some c) = Some s"
  show "0 \<le> x"
  proof (cases "drop_bit 7 x \<noteq> 0")
    case True
    with eq have "f (drop_bit 7 x) (push_bit 8 c OR ((drop_bit 7 x AND 0x7F) OR 0x80)) = Some s"
      by simp
    then have "0 \<le> drop_bit 7 x" by (rule IH)
    then show ?thesis by simp
  next
    case False
    then have "x div 128 = 0" by (simp add: drop_bit_eq_div)
    then show ?thesis by (simp add: div_eq_0_iff) 
  qed
qed

section \<open>What write_varlen returns\<close>

text \<open>
  On a value \<open>v \<ge> 0\<close> the first loop packs the bytes of the variable-length quantity
  into \<open>buffer\<close>, the most significant group in the lowest byte; the second loop reads
  them back from the lowest byte up, so \<open>out\<close> is the quantity in its standard order,
  and the function returns it reversed. On a negative value it does not return.
\<close>

lemma vlq_cont_nonpos [simp]: "w \<le> 0 \<Longrightarrow> vlq_cont w = []"
  by (subst vlq_cont.simps) simp

lemma vlq_cont_pos: "0 < w \<Longrightarrow> vlq_cont w = vlq_cont (w div 128) @ [w mod 128 + 128]"
  by (subst vlq_cont.simps) simp

lemma le_int_snoc2: "le_int (xs @ [g, b]) = le_int (xs @ [g + 256 * b])"
  by (induction xs) simp_all

lemma shift_closed:
  "0 \<le> v \<Longrightarrow> write_varlen_shift v b = Some (le_int (vlq_cont (v div 128) @ [b]))"
proof (induction "nat v" arbitrary: v b rule: less_induct)
  case less
  show ?case
  proof (cases "v div 128 = 0")
    case True
    then show ?thesis by (subst shift_step) simp
  next
    case False
    with less.prems have pos: "0 < v div 128" "0 \<le> v div 128"
      by (simp_all add: pos_imp_zdiv_nonneg_iff order.strict_iff_order)
    then have "v div 128 < v" using less.prems by (simp add: int_div_less_self)
    then have lt: "nat (v div 128) < nat v" using pos by simp
    have "write_varlen_shift (v div 128) (b * 256 + (v div 128 mod 128 + 128))
        = Some (le_int (vlq_cont (v div 128 div 128) @ [b * 256 + (v div 128 mod 128 + 128)]))"
      by (rule less.hyps[OF lt pos(2)])
    moreover have "vlq_cont (v div 128) = vlq_cont (v div 128 div 128) @ [v div 128 mod 128 + 128]"
      using pos by (simp add: vlq_cont_pos)
    ultimately show ?thesis using False
      by (subst shift_step) (simp add: le_int_snoc2 algebra_simps)
  qed
qed

lemma emit_closed:
  "\<forall>c \<in> set cs. 128 \<le> c \<and> c < 256 \<Longrightarrow> 0 \<le> t \<Longrightarrow> t < 128 \<Longrightarrow>
   write_varlen_emit (le_int (cs @ [t])) out = Some (out @ cs @ [t])"
proof (induction cs arbitrary: out)
  case Nil
  then show ?case by (subst emit_step) simp
next
  case (Cons c cs)
  then have c: "128 \<le> c" "c < 256" by simp_all
  then have d: "(c + 256 * le_int (cs @ [t])) div 128 = 1 + 2 * le_int (cs @ [t])"
    "(c + 256 * le_int (cs @ [t])) div 256 = le_int (cs @ [t])"
    "(c + 256 * le_int (cs @ [t])) mod 256 = c"
    by simp_all
  show ?case using Cons
    by (subst emit_step) (simp add: d)
qed

lemma vlq_cont_range: "c \<in> set (vlq_cont w) \<Longrightarrow> 128 \<le> c \<and> c < 256"
proof (induction w rule: vlq_cont.induct)
  case (1 w)
  show ?case
  proof (cases "w \<le> 0")
    case True
    with "1.prems" show ?thesis by simp
  next
    case False
    with "1.prems" have "c \<in> set (vlq_cont (w div 128)) \<or> c = w mod 128 + 128"
      by (auto simp: vlq_cont_pos)
    then show ?thesis
    proof
      assume "c \<in> set (vlq_cont (w div 128))"
      with False show ?thesis using "1.IH" by blast
    next
      assume "c = w mod 128 + 128"
      then show ?thesis by simp
    qed
  qed
qed

lemma write_varlen_nonneg: "0 \<le> v \<Longrightarrow> write_varlen v = Some (rev (vlq v))"
proof -
  assume v: "0 \<le> v"
  have t: "0 \<le> v mod 128" "v mod 128 < 128" by simp_all
  have "write_varlen_emit (le_int (vlq_cont (v div 128) @ [v mod 128])) []
      = Some ([] @ vlq_cont (v div 128) @ [v mod 128])"
    by (rule emit_closed) (use vlq_cont_range t in blast)+
  then show ?thesis
    by (simp add: write_varlen_def vlq_def and_7F shift_closed[OF v] rev_map)
qed

lemma write_varlen_neg: "v < 0 \<Longrightarrow> write_varlen v = None"
proof -
  assume "v < 0"
  then have "write_varlen_shift v (v AND 0x7F) = None"
    using shift_Some_nonneg[of v "v AND 0x7F"] by (cases "write_varlen_shift v (v AND 0x7F)") auto
  then show ?thesis by (simp add: write_varlen_def)
qed

lemma vlq_small: "0 \<le> v \<Longrightarrow> v < 128 \<Longrightarrow> vlq v = [word_of_int v]"
  by (simp add: vlq_def)

lemma write_varlen_small: "0 \<le> v \<Longrightarrow> v < 128 \<Longrightarrow> write_varlen v = Some [word_of_int v]"
  by (simp add: write_varlen_nonneg vlq_small)

section \<open>The reference encoding and its decoding\<close>

text \<open>
  The reference encoding has at most four bytes below \<open>2^28\<close>, and the standard decoding
  reads it back, so \<open>vlq\<close> and \<open>vlq_decode\<close> are the quantity the specification means.
\<close>

lemma uint_byte: "uint (word_of_int k :: byte) = k mod 256"
  by (simp add: uint_word_of_int)

lemma length_vlq_cont: "w < 128 ^ k \<Longrightarrow> length (vlq_cont w) \<le> k"
proof (induction k arbitrary: w)
  case 0
  then show ?case by simp
next
  case (Suc k)
  show ?case
  proof (cases "w \<le> 0")
    case True
    then show ?thesis by simp
  next
    case False
    from Suc.prems have "w < 128 * 128 ^ k" by simp
    then have "w div 128 < 128 ^ k" by linarith
    then have "length (vlq_cont (w div 128)) \<le> k" by (rule Suc.IH)
    with False show ?thesis by (simp add: vlq_cont_pos)
  qed
qed

lemma length_vlq: "v < 2 ^ 28 \<Longrightarrow> length (vlq v) \<le> 4"
proof -
  assume "v < 2 ^ 28"
  then have "v div 128 < 128 ^ 3" by simp
  then have "length (vlq_cont (v div 128)) \<le> 3" by (rule length_vlq_cont)
  then show ?thesis by (simp add: vlq_def)
qed

lemma byte_cont:
  assumes "128 \<le> g" "g < 256"
  shows "(word_of_int g :: byte) AND 0x80 \<noteq> 0" "uint ((word_of_int g :: byte) AND 0x7F) = g - 128"
proof -
  have u: "uint (word_of_int g :: byte) = g" using assms by (simp add: uint_byte)
  have "g div 128 = 1" using assms by simp
  then have "g AND 0x80 \<noteq> 0" by (simp add: and_80)
  moreover have "uint ((word_of_int g :: byte) AND 0x80) = g AND 0x80"
    by (simp add: uint_and u)
  ultimately show "(word_of_int g :: byte) AND 0x80 \<noteq> 0" by auto
  have "g mod 128 = g - 128" using assms by presburger
  then show "uint ((word_of_int g :: byte) AND 0x7F) = g - 128"
    by (simp add: uint_and u and_7F)
qed

lemma byte_last:
  assumes "0 \<le> t" "t < 128"
  shows "(word_of_int t :: byte) AND 0x80 = 0" "uint (word_of_int t :: byte) = t"
proof -
  show u: "uint (word_of_int t :: byte) = t" using assms by (simp add: uint_byte)
  have "t div 128 = 0" using assms by simp
  then have "t AND 0x80 = 0" using and_80[of t] by simp
  then have "uint ((word_of_int t :: byte) AND 0x80) = 0" by (simp add: uint_and u)
  then show "(word_of_int t :: byte) AND 0x80 = 0" by (simp add: uint_0_iff)
qed

lemma decode_cont:
  "0 \<le> w \<Longrightarrow> vlq_decode_from 0 (map word_of_int (vlq_cont w) @ rest) = vlq_decode_from w rest"
proof (induction w arbitrary: rest rule: vlq_cont.induct)
  case (1 w)
  show ?case
  proof (cases "w \<le> 0")
    case True
    with "1.prems" show ?thesis by simp
  next
    case False
    let ?g = "w mod 128 + 128"
    have g: "128 \<le> ?g" "?g < 256" by simp_all
    have "0 \<le> w div 128" using "1.prems" by (simp add: pos_imp_zdiv_nonneg_iff)
    with False have "vlq_decode_from 0 (map word_of_int (vlq_cont (w div 128)) @ (word_of_int ?g # rest))
        = vlq_decode_from (w div 128) (word_of_int ?g # rest)"
      using "1.IH" by simp
    also have "\<dots> = vlq_decode_from (w div 128 * 128 + w mod 128) rest"
      using byte_cont[OF g] by simp
    finally show ?thesis using False by (simp add: vlq_cont_pos)
  qed
qed

lemma vlq_roundtrip: "0 \<le> v \<Longrightarrow> vlq_decode (vlq v @ rest) = Some (v, rest)"
proof -
  assume v: "0 \<le> v"
  then have "0 \<le> v div 128" by (simp add: pos_imp_zdiv_nonneg_iff)
  then have "vlq_decode (vlq v @ rest) = vlq_decode_from (v div 128) (word_of_int (v mod 128) # rest)"
    using decode_cont[of "v div 128" "word_of_int (v mod 128) # rest"]
    by (simp add: vlq_decode_def vlq_def)
  also have "\<dots> = Some (v div 128 * 128 + v mod 128, rest)"
    using byte_last[of "v mod 128"] by simp
  finally show ?thesis by simp
qed

lemma write_varlen_decodes_reversed:
  assumes "0 \<le> v"
  shows "\<exists>bs. write_varlen v = Some bs \<and> vlq_decode (rev bs) = Some (v, [])"
proof -
  have "vlq_decode (rev (rev (vlq v))) = Some (v, [])"
    using vlq_roundtrip[OF assms, of "[]"] by simp
  then show ?thesis using write_varlen_nonneg[OF assms] by blast
qed

section \<open>Truncation and packing\<close>

text \<open>
  \<^verbatim>\<open>int(...)\<close> on quotients of numerals, the sign of its result, and the microsecond
  value of a tempo. \<^verbatim>\<open>pack('>L', n)\<close> writes the base-256 digits of \<open>n\<close>.
\<close>

lemma floor_rat_numeral_div [simp]:
  "\<lfloor>numeral a / numeral b :: rat\<rfloor> = numeral a div numeral b"
  by (metis floor_divide_of_int_eq of_int_numeral)

lemma floor_rat_neg_numeral_div [simp]:
  "\<lfloor>- (numeral a / numeral b) :: rat\<rfloor> = - numeral a div numeral b"
  by (metis divide_minus_left floor_divide_of_int_eq of_int_neg_numeral of_int_numeral)


lemma py_int_nonneg_iff: "0 \<le> py_int x \<longleftrightarrow> -1 < x"
proof (cases "x < 0")
  case True
  have "0 \<le> - \<lfloor>- x\<rfloor> \<longleftrightarrow> \<lfloor>- x\<rfloor> \<le> 0" by simp
  also have "\<dots> \<longleftrightarrow> - x < 1" by (simp add: floor_le_iff)
  finally show ?thesis using True by (simp add: py_int_def)
next
  case False
  then show ?thesis by (simp add: py_int_def)
qed

lemma py_int_tempo_neg:
  assumes "- 60000000 \<le> tempo" "tempo < 0"
  shows "py_int (60000000 / of_int tempo) < 0"
proof -
  have "(60000000 / of_int tempo :: rat) \<le> - 1"
    using assms by (simp add: divide_le_eq)
  then have "\<not> - 1 < (60000000 / of_int tempo :: rat)" by simp
  then show ?thesis using py_int_nonneg_iff[of "60000000 / of_int tempo"] by simp
qed

lemma pack_L_Inr:
  "pack_L n = Inr bs \<longleftrightarrow> 0 \<le> n \<and> n < 2 ^ 32 \<and>
     bs = [word_of_int (n div 2 ^ 24), word_of_int (n div 2 ^ 16), word_of_int (n div 2 ^ 8), word_of_int n]"
  by (auto simp: pack_L_def drop_bit_eq_div)

lemma split3: "(n::int) mod 2 ^ 24 = (n div 2 ^ 16 mod 256 * 256 + n div 2 ^ 8 mod 256) * 256 + n mod 256"
proof -
  have "n mod 2 ^ 24 = 65536 * (n div 65536 mod 256) + n mod 65536"
    using zmod_zmult2_eq[where a=n and b=65536 and c=256] by simp
  moreover have "n mod 65536 = 256 * (n div 256 mod 256) + n mod 256"
    using zmod_zmult2_eq[where a=n and b=256 and c=256] by simp
  ultimately show ?thesis by simp
qed

lemma split4: "(n::int) mod 2 ^ 32 = (n div 2 ^ 24 mod 256) * 2 ^ 24 + n mod 2 ^ 24"
  using zmod_zmult2_eq[where a=n and b="2 ^ 24" and c=256] by simp

lemma be_uint_pack_L_low:
  assumes "pack_L n = Inr bs"
  shows "length (drop 1 bs) = 3 \<and> be_uint (drop 1 bs) = n mod 2 ^ 24"
proof -
  define B C D where "B = n div 2 ^ 16 mod 256" and "C = n div 2 ^ 8 mod 256" and "D = n mod 256"
  have "n mod 2 ^ 24 = (B * 256 + C) * 256 + D"
    using split3[of n] by (simp add: B_def C_def D_def)
  moreover have "be_uint (drop 1 bs) = (B * 256 + C) * 256 + D"
    using assms by (simp add: pack_L_Inr be_uint_def uint_byte B_def C_def D_def)
  moreover have "length (drop 1 bs) = 3" using assms by (simp add: pack_L_Inr)
  ultimately show ?thesis by simp
qed

lemma be_uint_pack_L:
  assumes "pack_L n = Inr bs"
  shows "length bs = 4 \<and> be_uint bs = n"
proof -
  define A B C D where "A = n div 2 ^ 24 mod 256" and "B = n div 2 ^ 16 mod 256"
    and "C = n div 2 ^ 8 mod 256" and "D = n mod 256"
  from assms have n: "0 \<le> n" "n < 2 ^ 32" by (simp_all add: pack_L_Inr)
  then have "n mod 2 ^ 32 = n" by simp
  then have "n = A * 2 ^ 24 + n mod 2 ^ 24" using split4[of n] by (simp add: A_def B_def C_def D_def)
  moreover have "n mod 2 ^ 24 = (B * 256 + C) * 256 + D"
    using split3[of n] by (simp add: A_def B_def C_def D_def)
  ultimately have "n = ((A * 256 + B) * 256 + C) * 256 + D" by simp
  moreover have "be_uint bs = ((A * 256 + B) * 256 + C) * 256 + D"
    using assms by (simp add: pack_L_Inr be_uint_def uint_byte A_def B_def C_def D_def)
  moreover have "length bs = 4" using assms by (simp add: pack_L_Inr)
  ultimately show ?thesis by simp
qed

lemma header_fields: "pack_LHHH 6 1 1 480 = Inr [0, 0, 0, 6, 0, 1, 0, 1, 1, 0xE0]"
  by (simp add: pack_LHHH_def pack_L_def pack_H_def drop_bit_eq_div)

lemma bytes_pair:
  "bytes [p, v] = (if fits_byte p \<and> fits_byte v then Inr [word_of_int p, word_of_int v] else Inl ValueError)"
  by (simp add: bytes_def fits_byte_def)

lemma py_int_le: "0 \<le> n \<Longrightarrow> x \<le> of_int n \<Longrightarrow> py_int x \<le> n"
proof (cases "x < 0")
  case True
  assume n: "0 \<le> n"
  from True have "0 \<le> \<lfloor>- x\<rfloor>" by simp
  with n have "- \<lfloor>- x\<rfloor> \<le> n" by linarith
  with True show ?thesis by (simp add: py_int_def)
next
  case False
  assume "x \<le> of_int n"
  with False show ?thesis by (simp add: py_int_def floor_le_iff) 
qed

lemma tempo_stage:
  assumes "tempo \<noteq> 0" and "0 \<le> py_int (60000000 / of_int tempo)"
  shows "\<exists>packed. pack_L (py_int (60000000 / of_int tempo)) = Inr packed \<and> length packed = 4"
proof -
  have "(60000000 / of_int tempo :: rat) \<le> of_int 60000000"
  proof (cases "0 < tempo")
    case True
    then have "(1::rat) \<le> of_int tempo" by (simp add: of_int_1_le_iff)
    then show ?thesis by (simp add: divide_le_eq)
  next
    case False
    with assms(1) have "tempo < 0" by simp
    then have "(60000000 / of_int tempo :: rat) \<le> 0" by (simp add: divide_le_0_iff)
    also have "(0::rat) \<le> of_int 60000000" by simp
    finally show ?thesis .
  qed
  then have "py_int (60000000 / of_int tempo) \<le> 60000000" by (intro py_int_le) simp_all
  with assms(2) show ?thesis by (simp add: pack_L_def)
qed

section \<open>The loop over the events\<close>

text \<open>
  The loop body in one equation: an event on which \<^verbatim>\<open>int(...)\<close> raises stops the run
  with that error, an event with a negative delta stops it for ever, an event with a
  pitch or a velocity that \<^verbatim>\<open>bytes\<close> refuses raises, any other event appends its bytes
  and moves the cursor.
\<close>

lemma delta_field_rev_vlq: "0 \<le> n \<Longrightarrow> delta_field n (rev (vlq n))"
  by (auto simp: delta_field_def vlq_small)

lemma vlq_nonempty: "vlq n \<noteq> []"
  by (simp add: vlq_def)

lemma loop_Cons:
  "create_midi_loop A last_time td ((start, pitch, dur, vel) # ns) =
     (case num_int A (num_mul480 A (num_sub A start last_time)) of
        Inl e \<Rightarrow> Some (Inl e)
      | Inr a \<Rightarrow>
     (case num_int A (num_mul480 A dur) of
        Inl e \<Rightarrow> Some (Inl e)
      | Inr b \<Rightarrow>
          if a < 0 then None
          else if \<not> (fits_byte pitch \<and> fits_byte vel) then Some (Inl ValueError)
          else if b < 0 then None
          else create_midi_loop A (num_add A start dur)
                 (td @ rev (vlq a) @ [0x90, word_of_int pitch, word_of_int vel]
                     @ rev (vlq b) @ [0x80, word_of_int pitch, 0x00]) ns))"
proof -
  have z: "fits_byte 0" by (simp add: fits_byte_def)
  show ?thesis
    by (simp add: write_varlen_nonneg write_varlen_neg bytes_pair z split: sum.splits)
qed

declare create_midi_loop.simps(2) [simp del]

lemma loop_success:
  "\<forall>d \<in> set (tick_deltas A last_time ns). \<exists>n. d = Inr n \<and> 0 \<le> n \<and> n < 2 ^ 28 \<Longrightarrow>
   \<forall>(start, pitch, dur, vel) \<in> set ns. fits_byte pitch \<and> fits_byte vel \<Longrightarrow>
   \<exists>recs. create_midi_loop A last_time td ns = Some (Inr (td @ concat recs))
     \<and> list_all2 (note_record A) ns recs
     \<and> list_all2 note_on_record (start_ticks A last_time ns) recs
     \<and> length (concat recs) \<le> 14 * length ns"
proof (induction ns arbitrary: last_time td)
  case Nil
  then show ?case by simp
next
  case (Cons n ns)
  obtain start pitch dur vel where n: "n = (start, pitch, dur, vel)" by (cases n) auto
  from Cons.prems(1) obtain a b where
    a: "num_int A (num_mul480 A (num_sub A start last_time)) = Inr a" "0 \<le> a" "a < 2 ^ 28"
    and b: "num_int A (num_mul480 A dur) = Inr b" "0 \<le> b" "b < 2 ^ 28"
    by (auto simp: n)
  let ?r = "rev (vlq a) @ [0x90, word_of_int pitch, word_of_int vel] @ rev (vlq b) @ [0x80, word_of_int pitch, 0x00]"
  from Cons.prems(2) have f: "fits_byte pitch" "fits_byte vel" by (simp_all add: n)
  have len: "length ?r \<le> 14" using length_vlq[OF a(3)] length_vlq[OF b(3)] by simp
  from Cons.prems have "\<exists>recs. create_midi_loop A (num_add A start dur) (td @ ?r) ns
        = Some (Inr ((td @ ?r) @ concat recs))
      \<and> list_all2 (note_record A) ns recs
      \<and> list_all2 note_on_record (start_ticks A (num_add A start dur) ns) recs
      \<and> length (concat recs) \<le> 14 * length ns"
    by (intro Cons.IH) (simp_all add: n)
  then obtain recs where recs:
      "create_midi_loop A (num_add A start dur) (td @ ?r) ns = Some (Inr ((td @ ?r) @ concat recs))"
      "list_all2 (note_record A) ns recs"
      "list_all2 note_on_record (start_ticks A (num_add A start dur) ns) recs"
      "length (concat recs) \<le> 14 * length ns" by blast
  have 1: "create_midi_loop A last_time td (n # ns) = Some (Inr (td @ concat (?r # recs)))"
    using a b f recs(1) by (simp add: n loop_Cons)
  have "note_record A n ?r"
  proof -
    have "\<exists>on_delta off_delta.
        ?r = on_delta @ [0x90, word_of_int pitch, word_of_int vel]
             @ off_delta @ [0x80, word_of_int pitch, 0x00]
        \<and> on_delta \<noteq> [] \<and> delta_field b off_delta"
      by (rule exI[of _ "rev (vlq a)"], rule exI[of _ "rev (vlq b)"])
         (simp add: delta_field_rev_vlq[OF b(2)] vlq_nonempty)
    then show ?thesis by (simp add: note_record_def n b(1))
  qed
  then have 2: "list_all2 (note_record A) (n # ns) (?r # recs)" using recs(2) by simp
  have "note_on_record (Inr a) ?r"
  proof -
    have "\<exists>on_delta rest. ?r = on_delta @ [0x90] @ rest \<and> delta_field a on_delta"
      by (rule exI[of _ "rev (vlq a)"],
          rule exI[of _ "[word_of_int pitch, word_of_int vel] @ rev (vlq b) @ [0x80, word_of_int pitch, 0x00]"])
         (simp add: delta_field_rev_vlq[OF a(2)])
    then show ?thesis by (simp add: note_on_record_def)
  qed
  then have 3: "list_all2 note_on_record (start_ticks A last_time (n # ns)) (?r # recs)"
    using recs(3) a(1) by (simp add: n)
  have 4: "length (concat (?r # recs)) \<le> 14 * length (n # ns)" using len recs(4) by simp
  from 1 2 3 4 show ?case by blast
qed

lemma loop_records:
  "create_midi_loop A last_time td ns = Some (Inr out) \<Longrightarrow>
   \<exists>recs. out = td @ concat recs \<and> list_all2 (note_record A) ns recs"
proof (induction ns arbitrary: last_time td)
  case Nil
  then show ?case by simp
next
  case (Cons n ns)
  obtain start pitch dur vel where n: "n = (start, pitch, dur, vel)" by (cases n) auto
  from Cons.prems obtain a b where
    a: "num_int A (num_mul480 A (num_sub A start last_time)) = Inr a" "0 \<le> a"
    and b: "num_int A (num_mul480 A dur) = Inr b" "0 \<le> b"
    and rest: "create_midi_loop A (num_add A start dur)
        (td @ rev (vlq a) @ [0x90, word_of_int pitch, word_of_int vel]
            @ rev (vlq b) @ [0x80, word_of_int pitch, 0x00]) ns = Some (Inr out)"
    by (auto simp: n loop_Cons split: sum.splits if_splits)
  let ?r = "rev (vlq a) @ [0x90, word_of_int pitch, word_of_int vel] @ rev (vlq b) @ [0x80, word_of_int pitch, 0x00]"
  from Cons.IH[OF rest] obtain recs where recs: "out = (td @ ?r) @ concat recs"
      "list_all2 (note_record A) ns recs"
    by blast
  have "note_record A n ?r"
  proof -
    have "\<exists>on_delta off_delta.
        ?r = on_delta @ [0x90, word_of_int pitch, word_of_int vel]
             @ off_delta @ [0x80, word_of_int pitch, 0x00]
        \<and> on_delta \<noteq> [] \<and> delta_field b off_delta"
      by (rule exI[of _ "rev (vlq a)"], rule exI[of _ "rev (vlq b)"])
         (simp add: delta_field_rev_vlq[OF b(2)] vlq_nonempty)
    then show ?thesis by (simp add: note_record_def n b(1))
  qed
  with recs have "out = td @ concat (?r # recs) \<and> list_all2 (note_record A) (n # ns) (?r # recs)"
    by simp
  then show ?case by blast
qed

lemma loop_prefix:
  assumes "create_midi_loop A last_time td ns = Some (Inr out)"
  shows "\<exists>ev. out = td @ ev"
proof -
  from loop_records[OF assms] obtain recs where "out = td @ concat recs" by blast
  then show ?thesis by blast
qed

lemma loop_value_error:
  assumes "\<forall>d \<in> set (tick_deltas A last_time pre). \<exists>n. d = Inr n \<and> 0 \<le> n"
    and "\<forall>(start, pitch, dur, vel) \<in> set pre. fits_byte pitch \<and> fits_byte vel"
    and "num_int A (num_mul480 A (num_sub A start (cursor A last_time pre))) = Inr a" and "0 \<le> a"
    and "num_int A (num_mul480 A dur) = Inr b"
    and "\<not> (fits_byte pitch \<and> fits_byte vel)"
  shows "create_midi_loop A last_time td (pre @ (start, pitch, dur, vel) # post) = Some (Inl ValueError)"
  using assms(1-3)
proof (induction pre arbitrary: last_time td)
  case Nil
  then show ?case using assms(4-6) by (simp add: loop_Cons)
next
  case (Cons n pre)
  obtain s p d v where n: "n = (s, p, d, v)" by (cases n) auto
  from Cons.prems(1) obtain x y where
    x: "num_int A (num_mul480 A (num_sub A s last_time)) = Inr x" "0 \<le> x"
    and y: "num_int A (num_mul480 A d) = Inr y" "0 \<le> y"
    by (auto simp: n)
  from Cons.prems(2) have f: "fits_byte p" "fits_byte v" by (simp_all add: n)
  have "create_midi_loop A (num_add A s d)
          (td @ rev (vlq x) @ [0x90, word_of_int p, word_of_int v] @ rev (vlq y) @ [0x80, word_of_int p, 0x00])
          (pre @ (start, pitch, dur, vel) # post) = Some (Inl ValueError)"
    using Cons.prems by (intro Cons.IH) (simp_all add: n)
  then show ?case using x y f by (simp add: n loop_Cons)
qed

lemma loop_outcome:
  "\<forall>d \<in> set (tick_deltas A last_time ns). \<exists>n. d = Inr n \<and> n < 2 ^ 28 \<Longrightarrow>
   \<forall>(start, pitch, dur, vel) \<in> set ns. fits_byte pitch \<and> fits_byte vel \<Longrightarrow>
   create_midi_loop A last_time td ns = None
   \<or> (\<exists>ev. create_midi_loop A last_time td ns = Some (Inr (td @ ev)) \<and> length ev \<le> 14 * length ns)"
proof (induction ns arbitrary: last_time td)
  case Nil
  then show ?case by simp
next
  case (Cons n ns)
  obtain start pitch dur vel where n: "n = (start, pitch, dur, vel)" by (cases n) auto
  from Cons.prems(1) obtain a b where
    a: "num_int A (num_mul480 A (num_sub A start last_time)) = Inr a" "a < 2 ^ 28"
    and b: "num_int A (num_mul480 A dur) = Inr b" "b < 2 ^ 28"
    by (auto simp: n)
  from Cons.prems(2) have f: "fits_byte pitch" "fits_byte vel" by (simp_all add: n)
  let ?r = "rev (vlq a) @ [0x90, word_of_int pitch, word_of_int vel] @ rev (vlq b) @ [0x80, word_of_int pitch, 0x00]"
  show ?case
  proof (cases "a < 0 \<or> b < 0")
    case True
    then have "create_midi_loop A last_time td (n # ns) = None"
      using a(1) b(1) f by (auto simp: n loop_Cons)
    then show ?thesis by blast
  next
    case False
    then have eq: "create_midi_loop A last_time td (n # ns) = create_midi_loop A (num_add A start dur) (td @ ?r) ns"
      using a(1) b(1) f by (simp add: n loop_Cons)
    have len: "length ?r \<le> 14" using length_vlq[OF a(2)] length_vlq[OF b(2)] by simp
    from Cons.prems have "create_midi_loop A (num_add A start dur) (td @ ?r) ns = None
        \<or> (\<exists>ev. create_midi_loop A (num_add A start dur) (td @ ?r) ns = Some (Inr ((td @ ?r) @ ev))
              \<and> length ev \<le> 14 * length ns)"
      by (intro Cons.IH) (simp_all add: n)
    then show ?thesis
    proof
      assume "create_midi_loop A (num_add A start dur) (td @ ?r) ns = None"
      with eq show ?thesis by simp
    next
      assume "\<exists>ev. create_midi_loop A (num_add A start dur) (td @ ?r) ns = Some (Inr ((td @ ?r) @ ev))
              \<and> length ev \<le> 14 * length ns"
      then obtain ev where ev: "create_midi_loop A (num_add A start dur) (td @ ?r) ns = Some (Inr ((td @ ?r) @ ev))"
        "length ev \<le> 14 * length ns" by blast
      have "create_midi_loop A last_time td (n # ns) = Some (Inr (td @ (?r @ ev)))"
        using eq ev(1) by simp
      moreover have "length (?r @ ev) \<le> 14 * length (n # ns)" using len ev(2) by simp
      ultimately show ?thesis by blast
    qed
  qed
qed

lemma loop_None:
  "create_midi_loop A last_time td ns = None \<Longrightarrow>
   \<exists>d \<in> set (tick_deltas A last_time ns). \<exists>n. d = Inr n \<and> n < 0"
proof (induction ns arbitrary: last_time td)
  case Nil
  then show ?case by simp
next
  case (Cons n ns)
  obtain start pitch dur vel where n: "n = (start, pitch, dur, vel)" by (cases n) auto
  from Cons.prems obtain a b where
    a: "num_int A (num_mul480 A (num_sub A start last_time)) = Inr a"
    and b: "num_int A (num_mul480 A dur) = Inr b"
    by (auto simp: n loop_Cons split: sum.splits)
  show ?case
  proof (cases "a < 0 \<or> b < 0")
    case True
    then show ?thesis using a b by (auto simp: n)
  next
    case False
    with Cons.prems a b have "create_midi_loop A (num_add A start dur)
        (td @ rev (vlq a) @ [0x90, word_of_int pitch, word_of_int vel]
            @ rev (vlq b) @ [0x80, word_of_int pitch, 0x00]) ns = None"
      by (simp add: n loop_Cons split: if_splits)
    then have "\<exists>d \<in> set (tick_deltas A (num_add A start dur) ns). \<exists>n. d = Inr n \<and> n < 0"
      by (rule Cons.IH)
    then show ?thesis by (simp add: n)
  qed
qed

section \<open>The assembled file\<close>

text \<open>
  What a returned file looks like, when the call returns a file, and when it returns
  at all.
\<close>

lemma create_midi_Inr:
  "create_midi A ns tempo = Some (Inr buf) \<longleftrightarrow>
     (\<exists>packed ev len. tempo \<noteq> 0
        \<and> pack_L (py_int (60000000 / of_int tempo)) = Inr packed
        \<and> create_midi_loop A (num_zero A) ([0x00, 0xFF, 0x51, 0x03] @ drop 1 packed) ns = Some (Inr ev)
        \<and> pack_L (int (length (ev @ [0x00, 0xFF, 0x2F, 0x00]))) = Inr len
        \<and> buf = MThd @ [0, 0, 0, 6, 0, 1, 0, 1, 1, 0xE0] @ MTrk @ len @ ev @ [0x00, 0xFF, 0x2F, 0x00])"
  by (auto simp: create_midi_def Let_def header_fields split: sum.splits option.splits)

lemma create_midi_layout:
  assumes "create_midi A ns tempo = Some (Inr buf)"
  shows "\<exists>packed len ev. tempo \<noteq> 0
     \<and> pack_L (py_int (60000000 / of_int tempo)) = Inr packed
     \<and> pack_L (int (length ([0x00, 0xFF, 0x51, 0x03] @ drop 1 packed @ ev @ [0x00, 0xFF, 0x2F, 0x00 :: byte]))) = Inr len
     \<and> buf = (MThd @ [0, 0, 0, 6, 0, 1, 0, 1, 1, 0xE0]) @ (MTrk @ len)
             @ ([0x00, 0xFF, 0x51, 0x03] @ drop 1 packed) @ ev @ [0x00, 0xFF, 0x2F, 0x00]"
proof -
  from assms obtain packed out len where t: "tempo \<noteq> 0"
    and p: "pack_L (py_int (60000000 / of_int tempo)) = Inr packed"
    and l: "create_midi_loop A (num_zero A) ([0x00, 0xFF, 0x51, 0x03] @ drop 1 packed) ns = Some (Inr out)"
    and n: "pack_L (int (length (out @ [0x00, 0xFF, 0x2F, 0x00 :: byte]))) = Inr len"
    and b: "buf = MThd @ [0, 0, 0, 6, 0, 1, 0, 1, 1, 0xE0] @ MTrk @ len @ out @ [0x00, 0xFF, 0x2F, 0x00]"
    unfolding create_midi_Inr by blast
  from loop_prefix[OF l] obtain ev where "out = ([0x00, 0xFF, 0x51, 0x03] @ drop 1 packed) @ ev" by blast
  with t p n b show ?thesis by auto
qed

lemma create_midi_total:
  assumes "tempo \<noteq> 0" and "0 \<le> py_int (60000000 / of_int tempo)"
    and "length ns < 2 ^ 28"
    and "\<forall>d \<in> set (tick_deltas A (num_zero A) ns). \<exists>n. d = Inr n \<and> 0 \<le> n \<and> n < 2 ^ 28"
    and "\<forall>(start, pitch, dur, vel) \<in> set ns. fits_byte pitch \<and> fits_byte vel"
  shows "\<exists>tempo_bytes len recs.
       create_midi A ns tempo =
         Some (Inr ((MThd @ [0, 0, 0, 6, 0, 1, 0, 1, 1, 0xE0]) @ (MTrk @ len)
                    @ ([0x00, 0xFF, 0x51, 0x03] @ tempo_bytes) @ concat recs @ [0x00, 0xFF, 0x2F, 0x00]))
     \<and> length len = 4 \<and> length tempo_bytes = 3
     \<and> be_uint tempo_bytes = py_int (60000000 / of_int tempo) mod 2 ^ 24
     \<and> list_all2 (note_record A) ns recs
     \<and> list_all2 note_on_record (start_ticks A (num_zero A) ns) recs"
proof -
  obtain packed where p: "pack_L (py_int (60000000 / of_int tempo)) = Inr packed" "length packed = 4"
    using tempo_stage[OF assms(1,2)] by blast
  have low: "length (drop 1 packed) = 3"
      "be_uint (drop 1 packed) = py_int (60000000 / of_int tempo) mod 2 ^ 24"
    using be_uint_pack_L_low[OF p(1)] by simp_all
  let ?td = "[0x00, 0xFF, 0x51, 0x03] @ drop 1 packed"
  from loop_success[OF assms(4,5), of ?td] obtain recs where
    l: "create_midi_loop A (num_zero A) ?td ns = Some (Inr (?td @ concat recs))"
    and r: "list_all2 (note_record A) ns recs" "list_all2 note_on_record (start_ticks A (num_zero A) ns) recs"
    and n: "length (concat recs) \<le> 14 * length ns"
    by blast
  have "14 * length ns < 14 * 2 ^ 28" using assms(3) by simp
  with n low(1) have "int (length ((?td @ concat recs) @ [0x00, 0xFF, 0x2F, 0x00 :: byte])) < 2 ^ 32" by simp
  then obtain len where len: "pack_L (int (length ((?td @ concat recs) @ [0x00, 0xFF, 0x2F, 0x00 :: byte]))) = Inr len"
    by (simp add: pack_L_def)
  have "length len = 4" using be_uint_pack_L[OF len] by simp
  moreover have "create_midi A ns tempo =
         Some (Inr ((MThd @ [0, 0, 0, 6, 0, 1, 0, 1, 1, 0xE0]) @ (MTrk @ len)
                    @ ([0x00, 0xFF, 0x51, 0x03] @ drop 1 packed) @ concat recs @ [0x00, 0xFF, 0x2F, 0x00]))"
    using assms(1) p(1) l len by (simp add: create_midi_def header_fields)
  ultimately show ?thesis using low r by blast
qed

lemma create_midi_no_error:
  assumes "tempo \<noteq> 0" and "0 \<le> py_int (60000000 / of_int tempo)"
    and "length ns < 2 ^ 28"
    and "\<forall>d \<in> set (tick_deltas A (num_zero A) ns). \<exists>n. d = Inr n \<and> n < 2 ^ 28"
    and "\<forall>(start, pitch, dur, vel) \<in> set ns. fits_byte pitch \<and> fits_byte vel"
  shows "create_midi A ns tempo \<noteq> Some (Inl e)"
proof -
  obtain packed where p: "pack_L (py_int (60000000 / of_int tempo)) = Inr packed" "length packed = 4"
    using tempo_stage[OF assms(1,2)] by blast
  let ?td = "[0x00, 0xFF, 0x51, 0x03] @ drop 1 packed"
  from loop_outcome[OF assms(4,5), of ?td] show ?thesis
  proof
    assume "create_midi_loop A (num_zero A) ?td ns = None"
    then show ?thesis using assms(1) p(1) by (simp add: create_midi_def)
  next
    assume "\<exists>ev. create_midi_loop A (num_zero A) ?td ns = Some (Inr (?td @ ev)) \<and> length ev \<le> 14 * length ns"
    then obtain ev where l: "create_midi_loop A (num_zero A) ?td ns = Some (Inr (?td @ ev))"
      and n: "length ev \<le> 14 * length ns" by blast
    have "14 * length ns < 14 * 2 ^ 28" using assms(3) by simp
    with n p(2) have "int (length ((?td @ ev) @ [0x00, 0xFF, 0x2F, 0x00 :: byte])) < 2 ^ 32" by simp
    then obtain len where len: "pack_L (int (length ((?td @ ev) @ [0x00, 0xFF, 0x2F, 0x00 :: byte]))) = Inr len"
      by (simp add: pack_L_def)
    show ?thesis using assms(1) p(1) l len by (simp add: create_midi_def header_fields)
  qed
qed

lemma create_midi_returns:
  assumes "\<forall>d \<in> set (tick_deltas A (num_zero A) ns). \<forall>n. d = Inr n \<longrightarrow> 0 \<le> n"
  shows "\<exists>r. create_midi A ns tempo = Some r"
proof (cases "create_midi A ns tempo")
  case None
  then obtain td where "create_midi_loop A (num_zero A) td ns = None"
    by (auto simp: create_midi_def Let_def split: if_splits sum.splits option.splits)
  then have "\<exists>d \<in> set (tick_deltas A (num_zero A) ns). \<exists>n. d = Inr n \<and> n < 0" by (rule loop_None)
  with assms show ?thesis by fastforce
next
  case (Some r)
  then show ?thesis by blast
qed

text \<open>The equations that evaluate \<^verbatim>\<open>create_midi\<close> on a given input.\<close>

lemmas eval_defs = create_midi_def Let_def py_int_def pack_L_def drop_bit_eq_div loop_Cons
  fits_byte_def vlq_def vlq_cont_pos header_fields MThd_def MTrk_def exact_arith_def

section \<open>The claims\<close>

subsection \<open>C1: write_varlen and the variable-length quantity\<close>

text \<open>
  Claim C1: for every \<open>v\<close> in \<open>[0, 0x0FFFFFFF]\<close>, \<^verbatim>\<open>write_varlen(v)\<close> is the 7-bit groups of
  \<open>v\<close>, most significant group first, with the continuation bit on every byte except
  the last, so that the standard decoding gives \<open>v\<close> back; in particular
  \<^verbatim>\<open>write_varlen(128)\<close> is \<open>81 00\<close>. The program returns the bytes in the opposite
  order (lemma \<open>write_varlen_nonneg\<close>): at 128 it returns \<open>00 81\<close>, where the quantity
  the specification describes is \<open>81 00\<close>, and the standard decoding of \<open>00 81\<close> reads
  the value 0 and leaves the byte \<open>81\<close> unread. The one-byte cases 0 and 127 are as the
  claim says.
\<close>

theorem C1_write_varlen_128_reversed:
  "write_varlen 128 = Some [0x00, 0x81]
   \<and> vlq 128 = [0x81, 0x00]
   \<and> vlq_decode [0x00, 0x81] = Some (0, [0x81])
   \<and> write_varlen 0 = Some [0x00]
   \<and> write_varlen 127 = Some [0x7F]"
  by (simp add: write_varlen_nonneg vlq_def vlq_cont_pos vlq_decode_def)

subsection \<open>C2: the file for one note at tempo 155\<close>

text \<open>
  Claim C2: for tempo 155 and the single event \<open>(0.0, 41, 0.75, 100)\<close> the output is the
  14-byte header (format 1, one track, 480 ticks per quarter note), then the track
  chunk whose data is \<open>00 FF 51 03 05 E8 18\<close> (387096), \<open>00 90 29 64\<close>, the
  variable-length quantity of 360 followed by \<open>80 29 00\<close>, and \<open>00 FF 2F 00\<close>. The output
  of the program is as claimed except for the delta time of the Note-Off: the
  variable-length quantity of 360 is \<open>82 68\<close>, the program writes \<open>68 82\<close>. (No
  operation rounds on this input: \<open>0.75 * 480\<close> is 360.)
\<close>

theorem C2_one_note_file:
  "create_midi exact_arith [(0, 41, 3/4, 100)] 155 =
     Some (Inr ([0x4D, 0x54, 0x68, 0x64, 0x00, 0x00, 0x00, 0x06, 0x00, 0x01, 0x00, 0x01, 0x01, 0xE0]
              @ [0x4D, 0x54, 0x72, 0x6B, 0x00, 0x00, 0x00, 0x14]
              @ [0x00, 0xFF, 0x51, 0x03, 0x05, 0xE8, 0x18]
              @ [0x00, 0x90, 0x29, 0x64]
              @ [0x68, 0x82, 0x80, 0x29, 0x00]
              @ [0x00, 0xFF, 0x2F, 0x00]))
   \<and> py_int ((3/4) * 480) = 360
   \<and> vlq 360 = [0x82, 0x68]"
  by (simp add: eval_defs)

subsection \<open>C3: pitch and velocity out of range\<close>

text \<open>
  Claim C3: the encode fails, with no output, whenever some event has a pitch or a
  velocity outside \<open>[0, 127]\<close>; in particular a pitch of 128 is rejected. The program has
  no such check: a pitch of 128 is written as the byte \<open>80\<close>.
\<close>

theorem C3_pitch_128_encoded:
  "\<not> (0 \<le> (128::int) \<and> (128::int) \<le> 127)
   \<and> create_midi exact_arith [(0, 128, 1/4, 100)] 155 =
     Some (Inr ([0x4D, 0x54, 0x68, 0x64, 0x00, 0x00, 0x00, 0x06, 0x00, 0x01, 0x00, 0x01, 0x01, 0xE0]
              @ [0x4D, 0x54, 0x72, 0x6B, 0x00, 0x00, 0x00, 0x13]
              @ [0x00, 0xFF, 0x51, 0x03, 0x05, 0xE8, 0x18]
              @ [0x00, 0x90, 0x80, 0x64]
              @ [0x78, 0x80, 0x80, 0x00]
              @ [0x00, 0xFF, 0x2F, 0x00]))"
  by (simp add: eval_defs)

text \<open>
  Claim C3, as the program has it: the only rejection is the one of \<^verbatim>\<open>bytes([pitch, vel])\<close>,
  whose range is \<open>[0, 255]\<close>. The encode fails with \<^verbatim>\<open>ValueError\<close>, and nothing is written,
  when the tempo passes (it is not 0 and its microsecond value is not negative) and
  the loop reaches an event with a pitch or a velocity outside \<open>[0, 255]\<close>: every event
  \<open>pre\<close> before it has pitch and velocity in \<open>[0, 255]\<close> and delta times that the program
  computes as integers not below 0, the event's own start delta is computed as an
  integer not below 0, and \<^verbatim>\<open>int(dur * 480)\<close> does not raise. The events \<open>post\<close> after it
  do not matter. The statement holds in every arithmetic \<open>A\<close>, so in float arithmetic.
\<close>

theorem C3_value_error:
  assumes "tempo \<noteq> 0" and "0 \<le> py_int (60000000 / of_int tempo)"
    and "\<forall>d \<in> set (tick_deltas A (num_zero A) pre). \<exists>n. d = Inr n \<and> 0 \<le> n"
    and "\<forall>(s, p, d, v) \<in> set pre. 0 \<le> p \<and> p < 256 \<and> 0 \<le> v \<and> v < 256"
    and "\<exists>n. num_int A (num_mul480 A (num_sub A start (cursor A (num_zero A) pre))) = Inr n \<and> 0 \<le> n"
    and "\<exists>n. num_int A (num_mul480 A dur) = Inr n"
    and "\<not> (0 \<le> pitch \<and> pitch < 256 \<and> 0 \<le> vel \<and> vel < 256)"
  shows "create_midi A (pre @ (start, pitch, dur, vel) # post) tempo = Some (Inl ValueError)"
proof -
  obtain packed where p: "pack_L (py_int (60000000 / of_int tempo)) = Inr packed"
    using tempo_stage[OF assms(1,2)] by blast
  from assms(5) obtain a where a: "num_int A (num_mul480 A (num_sub A start (cursor A (num_zero A) pre))) = Inr a"
    "0 \<le> a" by blast
  from assms(6) obtain b where b: "num_int A (num_mul480 A dur) = Inr b" by blast
  from assms(4) have f: "\<forall>(s, p, d, v) \<in> set pre. fits_byte p \<and> fits_byte v"
    by (simp add: fits_byte_def)
  from assms(7) have g: "\<not> (fits_byte pitch \<and> fits_byte vel)" by (simp add: fits_byte_def)
  have "create_midi_loop A (num_zero A) ([0x00, 0xFF, 0x51, 0x03] @ drop 1 packed)
          (pre @ (start, pitch, dur, vel) # post) = Some (Inl ValueError)"
    by (rule loop_value_error[OF assms(3) f a b g])
  then show ?thesis using assms(1) p by (simp add: create_midi_def)
qed

theorem C3_value_error_witness:
  "create_midi exact_arith ([(0, 60, 1/4, 100)] @ (1/4, 256, 1/4, 100) # [(0, 62, 1/4, 100)]) 155
     = Some (Inl ValueError)
   \<and> create_midi exact_arith ([] @ (0, 60, 1/4, - 1) # []) (- 60000001) = Some (Inl ValueError)"
  using C3_value_error[of 155 exact_arith "[(0, 60, 1/4, 100)]" "1/4" "1/4" 256 100 "[(0, 62, 1/4, 100)]"]
    C3_value_error[of "- 60000001" exact_arith "[]" 0 "1/4" 60 "- 1" "[]"]
  by (simp add: exact_arith_def py_int_def)

subsection \<open>C4: negative start deltas\<close>

text \<open>
  Claim C4: whenever the start delta of some event, \<open>(start - last_time) * 480\<close>, is
  negative, the encode is rejected with an error. The program has no ordering check.
  Here the second event starts \<open>1/1024\<close> beat before the first one ends; its delta,
  \<open>-15/32\<close> tick (exact in floats), is truncated to 0 by \<^verbatim>\<open>int(...)\<close> and the event is
  written with the delta byte \<open>00\<close>.
\<close>

theorem C4_negative_delta_encoded:
  "(255/1024 - (0 + 1/4)) * 480 < (0::rat)
   \<and> create_midi exact_arith [(0, 60, 1/4, 100), (255/1024, 62, 1/4, 100)] 155 =
     Some (Inr ([0x4D, 0x54, 0x68, 0x64, 0x00, 0x00, 0x00, 0x06, 0x00, 0x01, 0x00, 0x01, 0x01, 0xE0]
              @ [0x4D, 0x54, 0x72, 0x6B, 0x00, 0x00, 0x00, 0x1B]
              @ [0x00, 0xFF, 0x51, 0x03, 0x05, 0xE8, 0x18]
              @ [0x00, 0x90, 0x3C, 0x64, 0x78, 0x80, 0x3C, 0x00]
              @ [0x00, 0x90, 0x3E, 0x64, 0x78, 0x80, 0x3E, 0x00]
              @ [0x00, 0xFF, 0x2F, 0x00]))"
  by (simp add: eval_defs)

text \<open>
  Claim C4, as the program has it: no event list is rejected for its order. When the
  tempo passes, every pitch and velocity is in \<open>[0, 255]\<close>, there are fewer than \<open>2^28\<close>
  events and every delta time is computed by \<^verbatim>\<open>int(...)\<close> as an integer below \<open>2^28\<close>, the
  encode raises no error, whatever the signs of the deltas. When moreover no
  computed delta is below 0, as for a start delta between \<open>-1\<close> and 0 tick, which
  \<^verbatim>\<open>int\<close> truncates to 0, the encode returns a file in which every event starts with
  the delta-time field of its truncated start delta (the byte \<open>00\<close> for the delta 0)
  and the status byte \<open>90\<close>.
\<close>

theorem C4_no_ordering_check:
  assumes "tempo \<noteq> 0" and "0 \<le> py_int (60000000 / of_int tempo)"
    and "length ns < 2 ^ 28"
    and "\<forall>d \<in> set (tick_deltas A (num_zero A) ns). \<exists>n. d = Inr n \<and> n < 2 ^ 28"
    and "\<forall>(start, pitch, dur, vel) \<in> set ns. 0 \<le> pitch \<and> pitch < 256 \<and> 0 \<le> vel \<and> vel < 256"
  shows "(\<forall>e. create_midi A ns tempo \<noteq> Some (Inl e))
     \<and> ((\<forall>d \<in> set (tick_deltas A (num_zero A) ns). \<exists>n. d = Inr n \<and> 0 \<le> n) \<longrightarrow>
          (\<exists>buf recs. create_midi A ns tempo = Some (Inr buf)
             \<and> drop 29 buf = concat recs @ [0x00, 0xFF, 0x2F, 0x00]
             \<and> list_all2 note_on_record (start_ticks A (num_zero A) ns) recs))"
proof (intro conjI allI impI)
  from assms(5) have f: "\<forall>(start, pitch, dur, vel) \<in> set ns. fits_byte pitch \<and> fits_byte vel"
    by (simp add: fits_byte_def)
  fix e
  show "create_midi A ns tempo \<noteq> Some (Inl e)"
    by (rule create_midi_no_error[OF assms(1-4) f])
next
  from assms(5) have f: "\<forall>(start, pitch, dur, vel) \<in> set ns. fits_byte pitch \<and> fits_byte vel"
    by (simp add: fits_byte_def)
  assume "\<forall>d \<in> set (tick_deltas A (num_zero A) ns). \<exists>n. d = Inr n \<and> 0 \<le> n"
  with assms(4) have t: "\<forall>d \<in> set (tick_deltas A (num_zero A) ns). \<exists>n. d = Inr n \<and> 0 \<le> n \<and> n < 2 ^ 28"
    by fastforce
  from create_midi_total[OF assms(1-3) t f] obtain tempo_bytes len recs where
    c: "create_midi A ns tempo =
         Some (Inr ((MThd @ [0, 0, 0, 6, 0, 1, 0, 1, 1, 0xE0]) @ (MTrk @ len)
                    @ ([0x00, 0xFF, 0x51, 0x03] @ tempo_bytes) @ concat recs @ [0x00, 0xFF, 0x2F, 0x00]))"
    and l: "length len = 4" "length tempo_bytes = 3"
    and r: "list_all2 note_on_record (start_ticks A (num_zero A) ns) recs"
    by blast
  let ?buf = "(MThd @ [0, 0, 0, 6, 0, 1, 0, 1, 1, 0xE0]) @ (MTrk @ len)
                    @ ([0x00, 0xFF, 0x51, 0x03] @ tempo_bytes) @ concat recs @ [0x00, 0xFF, 0x2F, 0x00 :: byte]"
  have "drop 29 ?buf = concat recs @ [0x00, 0xFF, 0x2F, 0x00]"
    using l by (simp add: MThd_def MTrk_def)
  with c r show "\<exists>buf recs. create_midi A ns tempo = Some (Inr buf)
             \<and> drop 29 buf = concat recs @ [0x00, 0xFF, 0x2F, 0x00]
             \<and> list_all2 note_on_record (start_ticks A (num_zero A) ns) recs"
    by blast
qed

theorem C4_no_ordering_check_witness:
  "(255/1024 - (0 + 1/4)) * 480 < (0::rat)
   \<and> (\<forall>e. create_midi exact_arith [(0, 60, 1/4, 100), (255/1024, 62, 1/4, 100)] 155 \<noteq> Some (Inl e))
   \<and> (\<exists>buf recs. create_midi exact_arith [(0, 60, 1/4, 100), (255/1024, 62, 1/4, 100)] 155 = Some (Inr buf)
         \<and> drop 29 buf = concat recs @ [0x00, 0xFF, 0x2F, 0x00]
         \<and> list_all2 note_on_record [Inr 0, Inr 0] recs)
   \<and> tick_deltas exact_arith 0 [(0, 60, 1, 100), (0, 64, 1, 100)] = [Inr 0, Inr 480, Inr (- 480), Inr 480]
   \<and> (\<forall>e. create_midi exact_arith [(0, 60, 1, 100), (0, 64, 1, 100)] 155 \<noteq> Some (Inl e))"
  using C4_no_ordering_check[of 155 "[(0, 60, 1/4, 100), (255/1024, 62, 1/4, 100)]" exact_arith]
    C4_no_ordering_check[of 155 "[(0, 60, 1, 100), (0, 64, 1, 100)]" exact_arith]
  by (simp add: exact_arith_def py_int_def)

subsection \<open>C5: termination\<close>

text \<open>
  Claim C5: \<^verbatim>\<open>create_midi\<close> terminates on every tempo and every finite event list. It
  does not on two notes that start together: the start delta of the second is
  \<^verbatim>\<open>int((0 - 1) * 480) = -480\<close>, and the first loop of \<^verbatim>\<open>write_varlen\<close> never ends on a
  negative value, since \<^verbatim>\<open>value >> 7\<close> goes from \<open>-480\<close> to \<open>-4\<close> to \<open>-1\<close> and stays there.
  (When no delta is computed as a negative integer the call returns: lemma
  \<open>create_midi_returns\<close>.)
\<close>

theorem C5_chord_never_returns:
  "py_int ((0 - (0 + 1)) * 480) = - 480
   \<and> write_varlen (- 480) = None
   \<and> create_midi exact_arith [(0, 60, 1, 100), (0, 64, 1, 100)] 155 = None"
  by (simp add: eval_defs write_varlen_neg)

subsection \<open>C6: the tempo meta-event\<close>

text \<open>
  Claim C6: the tempo is converted to microseconds per quarter note as
  \<open>60000000 / tempo\<close> truncated to an integer, and that value is packed into exactly three
  big-endian bytes of the tempo meta-event; tempo 155 gives 387096. At tempo 1 the
  value is 60000000, which three bytes cannot hold: the program writes \<open>93 87 00\<close>,
  that is 9668352, the value modulo \<open>2^24\<close>.
\<close>

theorem C6_tempo_1_low_bytes:
  "py_int (60000000 / of_int 1) = 60000000
   \<and> create_midi exact_arith [] 1 =
     Some (Inr ([0x4D, 0x54, 0x68, 0x64, 0x00, 0x00, 0x00, 0x06, 0x00, 0x01, 0x00, 0x01, 0x01, 0xE0]
              @ [0x4D, 0x54, 0x72, 0x6B, 0x00, 0x00, 0x00, 0x0B]
              @ [0x00, 0xFF, 0x51, 0x03, 0x93, 0x87, 0x00]
              @ [0x00, 0xFF, 0x2F, 0x00]))
   \<and> be_uint [0x93, 0x87, 0x00] = 9668352"
  by (simp add: eval_defs be_uint_def)

text \<open>
  Claim C6, as the program has it: whenever the tempo passes and the events can be
  encoded (pitch and velocity in \<open>[0, 255]\<close>, every delta computed as an integer from 0
  to below \<open>2^28\<close>, fewer than \<open>2^28\<close> events), the program returns a file whose track
  data starts with \<open>00 FF 51 03\<close> and exactly three bytes, the big-endian digits of
  \<^verbatim>\<open>int(60000000 / tempo)\<close> modulo \<open>2^24\<close>: the truncated value itself whenever it is
  below \<open>2^24\<close>, as 387096 is for tempo 155.
\<close>

theorem C6_tempo_bytes:
  assumes "tempo \<noteq> 0" and "0 \<le> py_int (60000000 / of_int tempo)"
    and "length ns < 2 ^ 28"
    and "\<forall>d \<in> set (tick_deltas A (num_zero A) ns). \<exists>n. d = Inr n \<and> 0 \<le> n \<and> n < 2 ^ 28"
    and "\<forall>(start, pitch, dur, vel) \<in> set ns. 0 \<le> pitch \<and> pitch < 256 \<and> 0 \<le> vel \<and> vel < 256"
  shows "\<exists>buf. create_midi A ns tempo = Some (Inr buf)
     \<and> take 4 (drop 22 buf) = [0x00, 0xFF, 0x51, 0x03]
     \<and> length (take 3 (drop 26 buf)) = 3
     \<and> be_uint (take 3 (drop 26 buf)) = py_int (60000000 / of_int tempo) mod 2 ^ 24
     \<and> (py_int (60000000 / of_int tempo) < 2 ^ 24 \<longrightarrow>
          be_uint (take 3 (drop 26 buf)) = py_int (60000000 / of_int tempo))"
proof -
  from assms(5) have f: "\<forall>(start, pitch, dur, vel) \<in> set ns. fits_byte pitch \<and> fits_byte vel"
    by (simp add: fits_byte_def)
  from create_midi_total[OF assms(1-4) f] obtain tempo_bytes len recs where
    c: "create_midi A ns tempo =
         Some (Inr ((MThd @ [0, 0, 0, 6, 0, 1, 0, 1, 1, 0xE0]) @ (MTrk @ len)
                    @ ([0x00, 0xFF, 0x51, 0x03] @ tempo_bytes) @ concat recs @ [0x00, 0xFF, 0x2F, 0x00]))"
    and l: "length len = 4" "length tempo_bytes = 3"
    and v: "be_uint tempo_bytes = py_int (60000000 / of_int tempo) mod 2 ^ 24"
    by blast
  define buf where "buf = (MThd @ [0, 0, 0, 6, 0, 1, 0, 1, 1, 0xE0]) @ (MTrk @ len)
                    @ ([0x00, 0xFF, 0x51, 0x03] @ tempo_bytes) @ concat recs @ [0x00, 0xFF, 0x2F, 0x00 :: byte]"
  have d22: "take 4 (drop 22 buf) = [0x00, 0xFF, 0x51, 0x03]"
    using l by (simp add: buf_def MThd_def MTrk_def)
  have d26: "take 3 (drop 26 buf) = tempo_bytes"
    using l by (simp add: buf_def MThd_def MTrk_def)
  have r: "create_midi A ns tempo = Some (Inr buf)" using c by (simp only: buf_def)
  have i: "py_int (60000000 / of_int tempo) < 2 ^ 24 \<longrightarrow>
          be_uint tempo_bytes = py_int (60000000 / of_int tempo)"
    using v assms(2) by simp
  show ?thesis
  proof (intro exI[of _ buf] conjI)
    show "create_midi A ns tempo = Some (Inr buf)" by (rule r)
    show "take 4 (drop 22 buf) = [0x00, 0xFF, 0x51, 0x03]" by (rule d22)
    show "length (take 3 (drop 26 buf)) = 3" using l(2) by (simp only: d26)
    show "be_uint (take 3 (drop 26 buf)) = py_int (60000000 / of_int tempo) mod 2 ^ 24"
      using v by (simp only: d26)
    show "py_int (60000000 / of_int tempo) < 2 ^ 24 \<longrightarrow>
          be_uint (take 3 (drop 26 buf)) = py_int (60000000 / of_int tempo)"
      using i by (simp only: d26)
  qed
qed

theorem C6_tempo_bytes_witness:
  "\<exists>buf. create_midi exact_arith [(0, 41, 3/4, 100)] 155 = Some (Inr buf)
     \<and> take 4 (drop 22 buf) = [0x00, 0xFF, 0x51, 0x03]
     \<and> length (take 3 (drop 26 buf)) = 3
     \<and> be_uint (take 3 (drop 26 buf)) = 387096"
proof -
  have "py_int (60000000 / of_int 155) = 387096" by (simp add: py_int_def)
  with C6_tempo_bytes[of 155 "[(0, 41, 3/4, 100)]" exact_arith] show ?thesis
    by (simp add: exact_arith_def py_int_def)
qed

subsection \<open>C7: tempos that are rejected\<close>

text \<open>
  Claim C7: the encode fails, with no output, whenever the tempo is at most 0 or its
  microsecond value does not fit in three bytes. The program accepts tempo 3, whose
  value 20000000 needs four bytes, and writes the low three, \<open>31 2D 00\<close>; it also
  accepts the tempo \<open>-60000001\<close>, for which \<^verbatim>\<open>int(60000000 / tempo)\<close> is 0.
\<close>

theorem C7_tempo_3_accepted:
  "\<not> py_int (60000000 / of_int 3) < 2 ^ 24
   \<and> create_midi exact_arith [] 3 =
     Some (Inr ([0x4D, 0x54, 0x68, 0x64, 0x00, 0x00, 0x00, 0x06, 0x00, 0x01, 0x00, 0x01, 0x01, 0xE0]
              @ [0x4D, 0x54, 0x72, 0x6B, 0x00, 0x00, 0x00, 0x0B]
              @ [0x00, 0xFF, 0x51, 0x03, 0x31, 0x2D, 0x00]
              @ [0x00, 0xFF, 0x2F, 0x00]))
   \<and> create_midi exact_arith [] (- 60000001) =
     Some (Inr ([0x4D, 0x54, 0x68, 0x64, 0x00, 0x00, 0x00, 0x06, 0x00, 0x01, 0x00, 0x01, 0x01, 0xE0]
              @ [0x4D, 0x54, 0x72, 0x6B, 0x00, 0x00, 0x00, 0x0B]
              @ [0x00, 0xFF, 0x51, 0x03, 0x00, 0x00, 0x00]
              @ [0x00, 0xFF, 0x2F, 0x00]))"
  by (simp add: eval_defs)

text \<open>
  Claim C7, as the program has it: tempo 0 fails with \<^verbatim>\<open>ZeroDivisionError\<close>, and a tempo
  from \<open>-60000000\<close> to \<open>-1\<close> fails with \<^verbatim>\<open>struct.error\<close>, because its microsecond value is
  negative; in both cases whatever the events are, and before any of them is looked at.
\<close>

theorem C7_tempo_rejected:
  "(tempo = 0 \<longrightarrow> create_midi A ns tempo = Some (Inl ZeroDivisionError))
   \<and> (- 60000000 \<le> tempo \<and> tempo < 0 \<longrightarrow> create_midi A ns tempo = Some (Inl StructError))"
proof (intro conjI impI)
  assume "tempo = 0"
  then show "create_midi A ns tempo = Some (Inl ZeroDivisionError)" by (simp add: create_midi_def)
next
  assume t: "- 60000000 \<le> tempo \<and> tempo < 0"
  then have "py_int (60000000 / of_int tempo) < 0" by (simp add: py_int_tempo_neg)
  then have "pack_L (py_int (60000000 / of_int tempo)) = Inl StructError" by (simp add: pack_L_def)
  with t show "create_midi A ns tempo = Some (Inl StructError)" by (simp add: create_midi_def)
qed

theorem C7_tempo_rejected_witness:
  "create_midi exact_arith [(0, 60, 1, 100)] 0 = Some (Inl ZeroDivisionError)
   \<and> create_midi exact_arith [(0, 60, 1, 100)] (- 1) = Some (Inl StructError)
   \<and> create_midi exact_arith [] (- 60000000) = Some (Inl StructError)"
  using C7_tempo_rejected[of 0 exact_arith "[(0, 60, 1, 100)]"]
    C7_tempo_rejected[of "- 1" exact_arith "[(0, 60, 1, 100)]"]
    C7_tempo_rejected[of "- 60000000" exact_arith "[]"]
  by simp

subsection \<open>C8: one Note-On and one Note-Off per event\<close>




subsection \<open>C9: the declared track length\<close>

text \<open>
  Claim C9: in every file the program produces, the 32-bit big-endian field that
  follows the tag \<open>MTrk\<close> is the number of bytes that follow the field.
\<close>

theorem C9_track_length:
  assumes "create_midi A ns tempo = Some (Inr buf)"
  shows "take 4 (drop 14 buf) = MTrk
     \<and> length (take 4 (drop 18 buf)) = 4
     \<and> be_uint (take 4 (drop 18 buf)) = int (length (drop 22 buf))"
proof -
  from create_midi_layout[OF assms] obtain packed len ev where
    n: "pack_L (int (length ([0x00, 0xFF, 0x51, 0x03] @ drop 1 packed @ ev @ [0x00, 0xFF, 0x2F, 0x00 :: byte]))) = Inr len"
    and b: "buf = (MThd @ [0, 0, 0, 6, 0, 1, 0, 1, 1, 0xE0]) @ (MTrk @ len)
             @ ([0x00, 0xFF, 0x51, 0x03] @ drop 1 packed) @ ev @ [0x00, 0xFF, 0x2F, 0x00]"
    by blast
  let ?track = "[0x00, 0xFF, 0x51, 0x03] @ drop 1 packed @ ev @ [0x00, 0xFF, 0x2F, 0x00 :: byte]"
  have len: "length len = 4" "be_uint len = int (length ?track)" using be_uint_pack_L[OF n] by simp_all
  have "take 4 (drop 14 buf) = MTrk" by (simp add: b MThd_def MTrk_def)
  moreover have "take 4 (drop 18 buf) = len" using len(1) by (simp add: b MThd_def MTrk_def)
  moreover have "drop 22 buf = ?track" using len(1) by (simp add: b MThd_def MTrk_def)
  ultimately show ?thesis using len by simp
qed

theorem C9_track_length_witness:
  "create_midi exact_arith [(0, 69, 1/8, 80)] 120 =
     Some (Inr ([0x4D, 0x54, 0x68, 0x64, 0x00, 0x00, 0x00, 0x06, 0x00, 0x01, 0x00, 0x01, 0x01, 0xE0]
              @ [0x4D, 0x54, 0x72, 0x6B, 0x00, 0x00, 0x00, 0x13]
              @ [0x00, 0xFF, 0x51, 0x03, 0x07, 0xA1, 0x20]
              @ [0x00, 0x90, 0x45, 0x50, 0x3C, 0x80, 0x45, 0x00]
              @ [0x00, 0xFF, 0x2F, 0x00]))
   \<and> be_uint (take 4 (drop 18 ([0x4D, 0x54, 0x68, 0x64, 0x00, 0x00, 0x00, 0x06, 0x00, 0x01, 0x00, 0x01, 0x01, 0xE0]
              @ [0x4D, 0x54, 0x72, 0x6B, 0x00, 0x00, 0x00, 0x13]
              @ [0x00, 0xFF, 0x51, 0x03, 0x07, 0xA1, 0x20]
              @ [0x00, 0x90, 0x45, 0x50, 0x3C, 0x80, 0x45, 0x00]
              @ [0x00, 0xFF, 0x2F, 0x00 :: byte]))) = 19"
proof -
  have h: "create_midi exact_arith [(0, 69, 1/8, 80)] 120 =
     Some (Inr ([0x4D, 0x54, 0x68, 0x64, 0x00, 0x00, 0x00, 0x06, 0x00, 0x01, 0x00, 0x01, 0x01, 0xE0]
              @ [0x4D, 0x54, 0x72, 0x6B, 0x00, 0x00, 0x00, 0x13]
              @ [0x00, 0xFF, 0x51, 0x03, 0x07, 0xA1, 0x20]
              @ [0x00, 0x90, 0x45, 0x50, 0x3C, 0x80, 0x45, 0x00]
              @ [0x00, 0xFF, 0x2F, 0x00]))"
    by (simp add: eval_defs)
  from C9_track_length[OF h] h show ?thesis by simp
qed

subsection \<open>C10: the empty event list\<close>



end
